theory Spec2Isabelle
  imports Complex_Main "HOL-Library.Word"
begin

section \<open>Data model (internal/common/models)\<close>

text \<open>
  The records keep the fields of the Go structs that the modelled functions read or
  write; the prefix names the struct. Identifiers (\<^verbatim>\<open>uint\<close>, assigned by the store from 1
  upwards) are natural numbers, 0 being Go's zero value "not yet stored". Prices
  (\<^verbatim>\<open>float64\<close>) are real numbers: the arithmetic of \<^verbatim>\<open>calculatePercentageChange\<close> is
  taken exact, without the rounding of IEEE doubles. Stock counts (\<^verbatim>\<open>int\<close>) are 64-bit
  words, so that the difference \<^verbatim>\<open>variant.StockCount - existingVariant.StockCount\<close> wraps
  as it does in Go. A \<^verbatim>\<open>time.Time\<close> is the number of nanoseconds since Go's zero time.
\<close>

record variant =
  vID :: nat
  vProductID :: nat
  vExternalID :: string
  vPrice :: real
  vOriginalPrice :: real
  vStockCount :: "64 word"

record product =
  pID :: nat
  pCreatedAt :: int
  pExternalID :: string
  pName :: string
  pURL :: string
  pIsActive :: bool
  pVariants :: "variant list"

record priceHistory =
  phProductID :: nat
  phVariantID :: nat
  phPreviousPrice :: real
  phNewPrice :: real
  phChangePercent :: real

record stockHistory =
  shProductID :: nat
  shVariantID :: nat
  shPreviousStock :: "64 word"
  shNewStock :: "64 word"
  shChangeQuantity :: "64 word"

section \<open>The relational store\<close>

text \<open>
  The store is the tables the modelled code touches, each a list of rows in the order of
  insertion. A row of \<open>products\<close> carries no variants (they live in \<open>variants\<close>), as a
  \<^verbatim>\<open>First(&existingProduct)\<close> without preloading returns it.
\<close>

record store =
  products :: "product list"
  variants :: "variant list"
  priceHistories :: "priceHistory list"
  stockHistories :: "stockHistory list"

text \<open>
  A call of the store or of the broker can fail for reasons outside the program (a lost
  connection, a timeout). Each call site is an \<open>op\<close>, with the indices of the loop
  iterations it sits in, and the argument \<open>fails\<close> of the modelled functions says which
  calls fail.
\<close>

datatype op =
    OpBegin
  | OpFirstProduct
  | OpFindVariants
  | OpCreatePriceHistory nat
  | OpCreateStockHistory nat
  | OpSave
  | OpCommit
  | OpFindPriceHistories
  | OpFirstVariant nat nat
  | OpPublish nat nat
  | OpCreateNotification
  | OpFindUserFavorites

datatype dberror = ErrRecordNotFound | ErrConnection

text \<open>The errors the modelled functions return, one for each \<^verbatim>\<open>fmt.Errorf\<close> message.\<close>

datatype error =
    FailedToBegin
  | FailedToFetchExistingVariants
  | FailedToCreatePriceHistory
  | FailedToCreateStockHistory
  | FailedToSaveProduct
  | FailedToCommitTransaction
  | FailedToFetchProduct
  | FailedToFetchPriceHistories
  | FailedToUnmarshal
  | FailedToLoadUserFavorites

text \<open>\<^verbatim>\<open>Where("external_id = ?", id).First(&product)\<close>\<close>

definition FirstProduct :: "(op \<Rightarrow> bool) \<Rightarrow> store \<Rightarrow> string \<Rightarrow> dberror + product" where
  "FirstProduct fails db externalID =
     (if fails OpFirstProduct then Inl ErrConnection
      else case find (\<lambda>row. pExternalID row = externalID) (products db) of
             None \<Rightarrow> Inl ErrRecordNotFound
           | Some row \<Rightarrow> Inr row)"

text \<open>\<^verbatim>\<open>First(&variant, history.VariantID)\<close>, at iteration \<open>j\<close>, \<open>k\<close> of the matcher's loops.\<close>

definition FirstVariant :: "(op \<Rightarrow> bool) \<Rightarrow> store \<Rightarrow> nat \<Rightarrow> nat \<Rightarrow> nat \<Rightarrow> dberror + variant" where
  "FirstVariant fails db j k variantID =
     (if fails (OpFirstVariant j k) then Inl ErrConnection
      else case find (\<lambda>row. vID row = variantID) (variants db) of
             None \<Rightarrow> Inl ErrRecordNotFound
           | Some row \<Rightarrow> Inr row)"

text \<open>
  Modelled from the spec: the store's insert-or-update (\<^verbatim>\<open>tx.Save\<close> of the ORM, a library
  outside the repository), which the specification describes as "upsert (insert-or-update)
  the Item with its reconciled Variant set". A record whose identifier is 0 is inserted
  under the next free identifier; a record with an identifier replaces the row of that
  identifier, or is inserted when there is none. The variants of a product are saved with
  it, each with the product's identifier as its foreign key. A product inserted with no
  creation time gets the current one.
\<close>

definition nextID :: "nat list \<Rightarrow> nat" where
  "nextID ids = Suc (fold max ids 0)"

definition upsert :: "('r \<Rightarrow> nat) \<Rightarrow> 'r \<Rightarrow> 'r list \<Rightarrow> 'r list" where
  "upsert key r rows =
     (if key r \<in> key ` set rows then map (\<lambda>x. if key x = key r then r else x) rows
      else rows @ [r])"

definition SaveVariant :: "nat \<Rightarrow> variant \<Rightarrow> variant list \<Rightarrow> variant list" where
  "SaveVariant productID v rows =
     (let v1 = v\<lparr>vProductID := productID\<rparr>;
          v2 = (if vID v1 = 0 then v1\<lparr>vID := nextID (map vID rows)\<rparr> else v1)
      in upsert vID v2 rows)"

definition Save :: "int \<Rightarrow> product \<Rightarrow> store \<Rightarrow> store" where
  "Save now p tx =
     (let p1 = (if pID p = 0
                then p\<lparr>pID := nextID (map pID (products tx)),
                       pCreatedAt := (if pCreatedAt p = 0 then now else pCreatedAt p)\<rparr>
                else p)
      in tx\<lparr>products := upsert pID (p1\<lparr>pVariants := []\<rparr>) (products tx),
            variants := fold (SaveVariant (pID p1)) (pVariants p1) (variants tx)\<rparr>)"

text \<open>
  The rows that saving variants without identifiers adds to a table in which the
  identifiers \<open>used\<close> are taken: each variant as it is, under the product's identifier
  and the next free identifier of its own.
\<close>

fun assignIDs :: "nat \<Rightarrow> variant list \<Rightarrow> nat list \<Rightarrow> variant list" where
  "assignIDs pid [] used = []"
| "assignIDs pid (v # vs) used =
     v\<lparr>vProductID := pid, vID := nextID used\<rparr> # assignIDs pid vs (used @ [nextID used])"

text \<open>
  A transaction works on a copy of the store. \<^verbatim>\<open>tx.Rollback()\<close> drops the copy and leaves
  the store as it was when the transaction began; \<^verbatim>\<open>tx.Commit()\<close> makes the copy the
  store, or fails and leaves the store as it was.
\<close>

definition Rollback :: "store \<Rightarrow> store \<Rightarrow> store" where
  "Rollback db tx = db"

definition Commit :: "(op \<Rightarrow> bool) \<Rightarrow> store \<Rightarrow> store \<Rightarrow> error option \<times> store" where
  "Commit fails db tx =
     (if fails OpCommit then (Some FailedToCommitTransaction, db) else (None, tx))"

text \<open>A run in which no call fails.\<close>

definition noFailure :: "op \<Rightarrow> bool" where
  "noFailure x = False"

text \<open>An instant some 2025 years after Go's zero time, in nanoseconds.\<close>

definition someInstant :: int where
  "someInstant = 63900000000 * 1000000000"

section \<open>Fetch scheduler: the priority table (internal/crawler)\<close>

text \<open>
  The crawler service keeps \<^verbatim>\<open>priorityList map[string]int\<close>, from a product's external
  identifier to its priority. Go's \<^verbatim>\<open>int\<close> is only compared here, never computed
  with, so it is an \<^typ>\<open>int\<close>.
\<close>

type_synonym priorityList = "string \<rightharpoonup> int"

text \<open>
  \<^verbatim>\<open>for productID, priority := range s.priorityList\<close> visits every entry once, in an
  order Go leaves unspecified. The order is an argument of the model: the list of pairs
  the loop yields, which \<open>ranges\<close> ties to the table.
\<close>

definition ranges :: "(string \<times> int) list \<Rightarrow> priorityList \<Rightarrow> bool" where
  "ranges kvs m \<longleftrightarrow> distinct (map fst kvs) \<and> map_of kvs = m"

definition maxProducts :: nat where
  "maxProducts = 100"

text \<open>The selection of \<^verbatim>\<open>crawlRegularPriorityProducts\<close>: the loop, then the cap.\<close>

definition regularPriorityProducts :: "(string \<times> int) list \<Rightarrow> string list" where
  "regularPriorityProducts kvs =
     (let regular = [productID. (productID, priority) \<leftarrow> kvs, priority < 5]
      in if length regular > maxProducts then take maxProducts regular else regular)"

text \<open>The selection of \<^verbatim>\<open>crawlHighPriorityProducts\<close>: the loop, and no cap.\<close>

definition highPriorityProducts :: "(string \<times> int) list \<Rightarrow> string list" where
  "highPriorityProducts kvs = [productID. (productID, priority) \<leftarrow> kvs, priority \<ge> 5]"

text \<open>A table of 101 entries, all of priority 3, in one order of iteration.\<close>

definition lowBandKey :: "nat \<Rightarrow> string" where
  "lowBandKey n = replicate (Suc n) CHR ''p''"

fun lowBandEntry :: "nat \<Rightarrow> string \<times> int" where
  "lowBandEntry n = (lowBandKey n, 3)"

definition lowBand101 :: "(string \<times> int) list" where
  "lowBand101 = map lowBandEntry [0..<101]"


subsection \<open>Mutations of the priority table\<close>

text \<open>
  \<^verbatim>\<open>loadPriorityList\<close>: every favourited product gets priority 10. The argument is the
  external identifiers of the products of the \<^verbatim>\<open>user_favorites\<close> rows.
\<close>

definition loadPriorityList ::
  "(op \<Rightarrow> bool) \<Rightarrow> string list \<Rightarrow> priorityList \<Rightarrow> error option \<times> priorityList" where
  "loadPriorityList fails userFavorites priorityList =
     (if fails OpFindUserFavorites then (Some FailedToLoadUserFavorites, priorityList)
      else (None, fold (\<lambda>favorite m. m(favorite \<mapsto> 10)) userFavorites priorityList))"

text \<open>
  The discovery pass \<^verbatim>\<open>crawlProductsByCategory\<close>, for a product the store already has:
  an entry of priority 1 unless there is one.
\<close>

definition ensurePriorityEntry :: "string \<Rightarrow> priorityList \<Rightarrow> priorityList" where
  "ensurePriorityEntry productID priorityList =
     (case priorityList productID of
        None \<Rightarrow> priorityList(productID \<mapsto> 1)
      | Some _ \<Rightarrow> priorityList)"

text \<open>
  The API handler \<^verbatim>\<open>updateProductPriority\<close>; \<open>productID\<close> is the path parameter
  \<^verbatim>\<open>id\<close>. The request body is given as \<^verbatim>\<open>c.Bind\<close>
  decodes it, \<open>None\<close> when it fails to decode.
\<close>

datatype httpStatus = StatusOK | StatusBadRequest | StatusNotFound | StatusInternalServerError

definition updateProductPriority ::
  "(op \<Rightarrow> bool) \<Rightarrow> store \<Rightarrow> string \<Rightarrow> int option \<Rightarrow> priorityList \<Rightarrow> httpStatus \<times> priorityList" where
  "updateProductPriority fails db productID request priorityList =
     (case request of
        None \<Rightarrow> (StatusBadRequest, priorityList)
      | Some priority \<Rightarrow>
          if priority < 0 \<or> priority > 10 then (StatusBadRequest, priorityList)
          else (case FirstProduct fails db productID of
                  Inl ErrRecordNotFound \<Rightarrow> (StatusNotFound, priorityList)
                | Inl ErrConnection \<Rightarrow> (StatusInternalServerError, priorityList)
                | Inr product \<Rightarrow> (StatusOK, priorityList(productID \<mapsto> priority))))"

text \<open>
  The handler of \<^verbatim>\<open>listenForPriorityUpdates\<close> for one message of the topic
  \<^verbatim>\<open>product-priorities\<close>, given as \<^verbatim>\<open>json.Unmarshal\<close> decodes it (\<open>None\<close> when it
  fails to decode).
\<close>

record priorityUpdate =
  puProductID :: string
  puPriority :: int

definition listenForPriorityUpdates ::
  "priorityUpdate option \<Rightarrow> priorityList \<Rightarrow> error option \<times> priorityList" where
  "listenForPriorityUpdates message priorityList =
     (case message of
        None \<Rightarrow> (Some FailedToUnmarshal, priorityList)
      | Some update \<Rightarrow> (None, priorityList(puProductID update \<mapsto> puPriority update)))"

text \<open>The bands the specification allows for an entry of the table.\<close>

definition bandsInRange :: "priorityList \<Rightarrow> bool" where
  "bandsInRange priorityList \<longleftrightarrow> (\<forall>k p. priorityList k = Some p \<longrightarrow> 0 \<le> p \<and> p \<le> 10)"

section \<open>Diff and publish engine: \<^verbatim>\<open>saveProduct\<close> (internal/crawler)\<close>

definition calculatePercentageChange :: "real \<Rightarrow> real \<Rightarrow> real" where
  "calculatePercentageChange oldPrice newPrice =
     (if oldPrice = 0 then 0 else ((newPrice - oldPrice) / oldPrice) * 100)"

text \<open>Lines 592 to 595: the map of the existing variants by external identifier.\<close>

definition existingVariantMap :: "variant list \<Rightarrow> (string \<rightharpoonup> variant)" where
  "existingVariantMap existingVariants =
     fold (\<lambda>variant m. m(vExternalID variant \<mapsto> variant)) existingVariants Map.empty"

text \<open>
  Lines 598 to 637: the loop over \<^verbatim>\<open>product.Variants\<close> from index \<open>i\<close> on. It returns
  the variants as the loop leaves them in the slice and the transaction's copy of the
  store, or the error of the first insert that fails.
\<close>

fun compareVariants ::
  "(op \<Rightarrow> bool) \<Rightarrow> product \<Rightarrow> (string \<rightharpoonup> variant) \<Rightarrow> nat \<Rightarrow> variant list \<Rightarrow> store
     \<Rightarrow> error + (variant list \<times> store)" where
  "compareVariants fails existingProduct m i [] tx = Inr ([], tx)"
| "compareVariants fails existingProduct m i (variant # rest) tx =
     (case m (vExternalID variant) of
        None \<Rightarrow>
          (case compareVariants fails existingProduct m (Suc i) rest tx of
             Inl e \<Rightarrow> Inl e
           | Inr (vs, tx') \<Rightarrow> Inr (variant # vs, tx'))
      | Some existingVariant \<Rightarrow>
          if vPrice existingVariant \<noteq> vPrice variant \<and> fails (OpCreatePriceHistory i)
          then Inl FailedToCreatePriceHistory
          else
            let tx1 = (if vPrice existingVariant \<noteq> vPrice variant
                       then tx\<lparr>priceHistories := priceHistories tx @
                              [\<lparr>phProductID = pID existingProduct,
                                phVariantID = vID existingVariant,
                                phPreviousPrice = vPrice existingVariant,
                                phNewPrice = vPrice variant,
                                phChangePercent = calculatePercentageChange
                                  (vPrice existingVariant) (vPrice variant)\<rparr>]\<rparr>
                       else tx)
            in if vStockCount existingVariant \<noteq> vStockCount variant
                  \<and> fails (OpCreateStockHistory i)
               then Inl FailedToCreateStockHistory
               else
                 let tx2 = (if vStockCount existingVariant \<noteq> vStockCount variant
                            then tx1\<lparr>stockHistories := stockHistories tx1 @
                                   [\<lparr>shProductID = pID existingProduct,
                                     shVariantID = vID existingVariant,
                                     shPreviousStock = vStockCount existingVariant,
                                     shNewStock = vStockCount variant,
                                     shChangeQuantity = vStockCount variant
                                       - vStockCount existingVariant\<rparr>]\<rparr>
                            else tx1);
                     variant' = variant\<lparr>vID := vID existingVariant,
                                        vProductID := pID existingProduct\<rparr>
                 in (case compareVariants fails existingProduct m (Suc i) rest tx2 of
                       Inl e \<Rightarrow> Inl e
                     | Inr (vs, tx') \<Rightarrow> Inr (variant' # vs, tx')))"

text \<open>Lines 640 to 651: the upsert of the product and the commit.\<close>

definition saveAndCommit ::
  "(op \<Rightarrow> bool) \<Rightarrow> int \<Rightarrow> store \<Rightarrow> store \<Rightarrow> product \<Rightarrow> error option \<times> store" where
  "saveAndCommit fails now db tx product =
     (if fails OpSave then (Some FailedToSaveProduct, Rollback db tx)
      else Commit fails db (Save now product tx))"

text \<open>
  \<^verbatim>\<open>saveProduct\<close>: the error returned and the store afterwards, as a reader outside the
  transaction sees it. A lookup of the product that fails, for whatever reason, takes
  the path of a new product, as \<^verbatim>\<open>result.Error == nil\<close> decides. The unique indexes of
  the schema are not part of \<open>Save\<close>: an upsert that the store rejects is a failing
  \<open>OpSave\<close>.
\<close>

definition saveProduct ::
  "(op \<Rightarrow> bool) \<Rightarrow> int \<Rightarrow> store \<Rightarrow> product \<Rightarrow> error option \<times> store" where
  "saveProduct fails now db product =
     (if fails OpBegin then (Some FailedToBegin, db)
      else
        let tx = db in
        case FirstProduct fails tx (pExternalID product) of
          Inl err \<Rightarrow> saveAndCommit fails now db tx product
        | Inr existingProduct \<Rightarrow>
            let product1 = product\<lparr>pID := pID existingProduct,
                                   pCreatedAt := pCreatedAt existingProduct\<rparr>
            in if fails OpFindVariants
               then (Some FailedToFetchExistingVariants, Rollback db tx)
               else
                 let existingVariants = [v \<leftarrow> variants tx. vProductID v = pID existingProduct]
                 in (case compareVariants fails existingProduct
                            (existingVariantMap existingVariants) 0 (pVariants product1) tx of
                       Inl e \<Rightarrow> (Some e, Rollback db tx)
                     | Inr (vs, tx') \<Rightarrow>
                         saveAndCommit fails now db tx' (product1\<lparr>pVariants := vs\<rparr>)))"


definition cheaperSnapshot :: product where
  "cheaperSnapshot =
     \<lparr>pID = 0, pCreatedAt = 0, pExternalID = ''X'', pName = ''N'', pURL = ''U'',
      pIsActive = True,
      pVariants = [\<lparr>vID = 0, vProductID = 0, vExternalID = ''V'', vPrice = 80,
                     vOriginalPrice = 100, vStockCount = 5\<rparr>]\<rparr>"


text \<open>An empty store.\<close>

definition emptyStore :: store where
  "emptyStore = \<lparr>products = [], variants = [], priceHistories = [], stockHistories = []\<rparr>"

text \<open>The empty store after the snapshot was reconciled once, nothing failing.\<close>

definition afterFirstSave :: store where
  "afterFirstSave = snd (saveProduct noFailure someInstant emptyStore cheaperSnapshot)"

section \<open>Alert matcher (internal/analyzer)\<close>

record priceAlert =
  paUserID :: nat
  paProductID :: nat
  paVariantID :: nat
  paDiscountPercent :: real
  paLastNotification :: int

text \<open>The payload of a notify-event, the anonymous struct of \<^verbatim>\<open>processProductUpdate\<close>.\<close>

record notification =
  nUserID :: nat
  nProductID :: nat
  nVariantID :: nat
  nPreviousPrice :: real
  nNewPrice :: real
  nDiscountPercent :: real
  nProductName :: string
  nProductURL :: string

text \<open>
  \<^verbatim>\<open>time.Since(t)\<close> is \<^verbatim>\<open>time.Now().Sub(t)\<close>, a \<^verbatim>\<open>time.Duration\<close>: the difference
  in nanoseconds, saturated to the range of a 64-bit integer. The clock is read as one
  instant \<open>now\<close> for the whole of a handler's run.
\<close>

definition maxDuration :: int where
  "maxDuration = 2 ^ 63 - 1"

definition minDuration :: int where
  "minDuration = - (2 ^ 63)"

definition timeSince :: "int \<Rightarrow> int \<Rightarrow> int" where
  "timeSince now t = max minDuration (min maxDuration (now - t))"

definition Hour :: int where
  "Hour = 3600 * 1000000000"

text \<open>
  Lines 167 to 171: the loop over \<^verbatim>\<open>s.priceAlerts[product.ID]\<close> that stamps the alerts
  of one user.
\<close>

definition updateLastNotification :: "nat \<Rightarrow> int \<Rightarrow> priceAlert list \<Rightarrow> priceAlert list" where
  "updateLastNotification userID now alerts =
     map (\<lambda>a. if paUserID a = userID then a\<lparr>paLastNotification := now\<rparr> else a) alerts"

text \<open>
  The body of the inner loop, lines 130 to 173, for the alert \<open>alert\<close> (the loop variable,
  a copy of the \<open>j\<close>-th alert made when the outer iteration began) and the \<open>k\<close>-th price
  history. The state is the stored alerts of the product and the notify-events published
  so far. The stored alerts are the backing array that the slice \<^verbatim>\<open>alerts\<close> and the
  map entry \<^verbatim>\<open>s.priceAlerts[product.ID]\<close> share.
\<close>

definition checkHistory ::
  "(op \<Rightarrow> bool) \<Rightarrow> int \<Rightarrow> store \<Rightarrow> product \<Rightarrow> nat \<Rightarrow> priceAlert \<Rightarrow> nat \<times> priceHistory
     \<Rightarrow> priceAlert list \<times> notification list \<Rightarrow> priceAlert list \<times> notification list" where
  "checkHistory fails now db product j alert kh st =
     (let k = fst kh; history = snd kh in
      if phChangePercent history \<le> - paDiscountPercent alert
         \<and> timeSince now (paLastNotification alert) > 24 * Hour
      then (case FirstVariant fails db j k (phVariantID history) of
              Inl err \<Rightarrow> st
            | Inr variant \<Rightarrow>
                if fails (OpPublish j k) then st
                else (updateLastNotification (paUserID alert) now (fst st),
                      snd st @ [\<lparr>nUserID = paUserID alert,
                                 nProductID = pID product,
                                 nVariantID = vID variant,
                                 nPreviousPrice = phPreviousPrice history,
                                 nNewPrice = phNewPrice history,
                                 nDiscountPercent = - phChangePercent history,
                                 nProductName = pName product,
                                 nProductURL = pURL product\<rparr>]))
      else st)"

text \<open>
  The body of the outer loop, lines 127 to 175: \<^verbatim>\<open>for _, alert := range alerts\<close> copies
  the \<open>j\<close>-th stored alert as it is when the iteration begins, and the inner loop runs
  over the price histories with that copy.
\<close>

definition checkAlert ::
  "(op \<Rightarrow> bool) \<Rightarrow> int \<Rightarrow> store \<Rightarrow> product \<Rightarrow> priceHistory list \<Rightarrow> nat
     \<Rightarrow> priceAlert list \<times> notification list \<Rightarrow> priceAlert list \<times> notification list" where
  "checkAlert fails now db product histories j st =
     (let alert = fst st ! j
      in fold (checkHistory fails now db product j alert)
           (zip [0..<length histories] histories) st)"

text \<open>
  \<^verbatim>\<open>processProductUpdate\<close>: the error returned, the notify-events published and the
  table of alerts afterwards. The price histories are the ten latest of the product
  (\<^verbatim>\<open>Order("created_at DESC").Limit(10)\<close>), the latest first.
\<close>

definition processProductUpdate ::
  "(op \<Rightarrow> bool) \<Rightarrow> int \<Rightarrow> store \<Rightarrow> (nat \<rightharpoonup> priceAlert list) \<Rightarrow> string
     \<Rightarrow> error option \<times> notification list \<times> (nat \<rightharpoonup> priceAlert list)" where
  "processProductUpdate fails now db priceAlerts externalID =
     (case FirstProduct fails db externalID of
        Inl err \<Rightarrow> (Some FailedToFetchProduct, [], priceAlerts)
      | Inr product \<Rightarrow>
          if fails OpFindPriceHistories then (Some FailedToFetchPriceHistories, [], priceAlerts)
          else
            let histories = take 10 (rev [h \<leftarrow> priceHistories db. phProductID h = pID product])
            in (case priceAlerts (pID product) of
                  None \<Rightarrow> (None, [], priceAlerts)
                | Some alerts \<Rightarrow>
                    if length histories > 0
                    then let st = fold (checkAlert fails now db product histories)
                                    [0..<length alerts] (alerts, [])
                         in (None, snd st, priceAlerts(pID product \<mapsto> fst st))
                    else (None, [], priceAlerts)))"

text \<open>
  One product with one variant, whose price fell from 100 to 80 and then from 80 to 60,
  and one alert of user 7 on it with a threshold of 15 percent that has never notified.
\<close>

definition twoDropsStore :: store where
  "twoDropsStore =
     \<lparr>products = [\<lparr>pID = 1, pCreatedAt = 1, pExternalID = ''X'', pName = ''N'', pURL = ''U'',
                    pIsActive = True, pVariants = []\<rparr>],
      variants = [\<lparr>vID = 1, vProductID = 1, vExternalID = ''V'', vPrice = 60,
                    vOriginalPrice = 100, vStockCount = 5\<rparr>],
      priceHistories =
        [\<lparr>phProductID = 1, phVariantID = 1, phPreviousPrice = 100, phNewPrice = 80,
          phChangePercent = - 20\<rparr>,
         \<lparr>phProductID = 1, phVariantID = 1, phPreviousPrice = 80, phNewPrice = 60,
          phChangePercent = - 25\<rparr>],
      stockHistories = []\<rparr>"

definition oneAlert :: "nat \<rightharpoonup> priceAlert list" where
  "oneAlert = [1 \<mapsto> [\<lparr>paUserID = 7, paProductID = 1, paVariantID = 0,
                        paDiscountPercent = 15, paLastNotification = 0\<rparr>]]"




section \<open>Notification fan-out (internal/notification)\<close>

text \<open>
  The text that \<^verbatim>\<open>fmt.Sprintf\<close> renders from the product's name, the new price, the
  previous price and the discount is kept as the four values it is rendered from.
\<close>

datatype message = PriceDropAlert string real real real

text \<open>A row of the table of \<^verbatim>\<open>models.Notification\<close>.\<close>

record dbNotification =
  dnUserID :: nat
  dnProductID :: nat
  dnMessage :: message
  dnIsRead :: bool
  dnDeliveredAt :: int

text \<open>
  A Go channel of capacity 100: the values sent and not yet received, the oldest first,
  and whether \<^verbatim>\<open>close\<close> was called on it. Channels are shared by reference between
  the service's map and the connection handlers, so they live in a heap \<open>chans\<close> of
  cells; \<^verbatim>\<open>make\<close> takes the cell \<open>nextChan\<close>, which no one has a reference to.
\<close>

record chan =
  buf :: "message list"
  closed :: bool

record service =
  notifications :: "dbNotification list"
  userChannels :: "nat \<rightharpoonup> nat"
  chans :: "nat \<Rightarrow> chan"
  nextChan :: nat










text \<open>
  The branch \<^verbatim>\<open>case msg, ok := <-notificationCh\<close> of the loop of
  \<^verbatim>\<open>handleWebSocket\<close>, for the channel the connection registered: a buffered value
  is received, from a closed channel as well; a closed channel with an empty buffer gives
  \<^verbatim>\<open>ok = false\<close> and the handler returns; an open channel with an empty buffer is
  not ready. A received value is written to the connection's socket.
\<close>

datatype received = Delivered message | ChannelClosed | NotReady

definition receiveNotification :: "nat \<Rightarrow> service \<Rightarrow> received \<times> service" where
  "receiveNotification channel s =
     (case buf (chans s channel) of
        msg # rest \<Rightarrow>
          (Delivered msg, s\<lparr>chans := (chans s)(channel := (chans s channel)\<lparr>buf := rest\<rparr>)\<rparr>)
      | [] \<Rightarrow> if closed (chans s channel) then (ChannelClosed, s) else (NotReady, s))"









section \<open>Locking of the shared tables\<close>

text \<open>
  What a function does to the table of its service and to the mutex that guards it, in
  program order: the crawler's \<^verbatim>\<open>priorityList\<close> with \<^verbatim>\<open>priorityMux\<close>, and the
  analyzer's \<^verbatim>\<open>priceAlerts\<close>, for which the analyzer's \<^verbatim>\<open>Service\<close> declares no
  mutex. A loop contributes the events of its body once for each iteration.
\<close>

datatype event = RLock | RUnlock | Lock | Unlock | ReadTable | WriteTable

datatype held = NotHeld | HeldForRead | HeldForWrite

text \<open>
  A run of events is guarded when every read of the table happens with the mutex held,
  for reading or for writing, and every write with the mutex held for writing.
\<close>

fun guardedFrom :: "held \<Rightarrow> event list \<Rightarrow> bool" where
  "guardedFrom h [] = True"
| "guardedFrom h (RLock # es) = guardedFrom HeldForRead es"
| "guardedFrom h (RUnlock # es) = guardedFrom NotHeld es"
| "guardedFrom h (Lock # es) = guardedFrom HeldForWrite es"
| "guardedFrom h (Unlock # es) = guardedFrom NotHeld es"
| "guardedFrom h (ReadTable # es) = (h \<noteq> NotHeld \<and> guardedFrom h es)"
| "guardedFrom h (WriteTable # es) = (h = HeldForWrite \<and> guardedFrom h es)"

definition guarded :: "event list \<Rightarrow> bool" where
  "guarded es = guardedFrom NotHeld es"

subsection \<open>The crawler's functions (part 002)\<close>

text \<open>\<^verbatim>\<open>loadPriorityList\<close>, lines 377 to 383, for \<open>n\<close> favourites.\<close>

definition loadPriorityList_events :: "nat \<Rightarrow> event list" where
  "loadPriorityList_events n = [Lock] @ replicate n WriteTable @ [Unlock]"

text \<open>
  \<^verbatim>\<open>crawlProductsByCategory\<close>, lines 460 to 464, for the products the store has:
  for each, whether the table had an entry already.
\<close>

definition crawlProductsByCategory_events :: "bool list \<Rightarrow> event list" where
  "crawlProductsByCategory_events known =
     concat (map (\<lambda>exists. [Lock, ReadTable] @ (if exists then [] else [WriteTable]) @ [Unlock])
               known)"

text \<open>\<^verbatim>\<open>crawlRegularPriorityProducts\<close>, lines 492 to 499, over a table of \<open>n\<close> entries.\<close>

definition crawlRegularPriorityProducts_events :: "nat \<Rightarrow> event list" where
  "crawlRegularPriorityProducts_events n = [RLock] @ replicate n ReadTable @ [RUnlock]"

text \<open>\<^verbatim>\<open>crawlHighPriorityProducts\<close>, lines 534 to 541, over a table of \<open>n\<close> entries.\<close>

definition crawlHighPriorityProducts_events :: "nat \<Rightarrow> event list" where
  "crawlHighPriorityProducts_events n = [RLock] @ replicate n ReadTable @ [RUnlock]"

text \<open>\<^verbatim>\<open>updateProductPriority\<close>, lines 226 to 228; the rejecting paths touch nothing.\<close>

definition updateProductPriority_events :: "bool \<Rightarrow> event list" where
  "updateProductPriority_events accepted = (if accepted then [Lock, WriteTable, Unlock] else [])"

text \<open>The handler of \<^verbatim>\<open>listenForPriorityUpdates\<close>, lines 700 to 702.\<close>

definition listenForPriorityUpdates_events :: "event list" where
  "listenForPriorityUpdates_events = [Lock, WriteTable, Unlock]"

subsection \<open>The analyzer's functions (part 001 and internal/analyzer/api.go)\<close>

text \<open>\<^verbatim>\<open>loadPriceAlerts\<close>, line 85, for \<open>n\<close> favourites: the entry is read and stored.\<close>

definition loadPriceAlerts_events :: "nat \<Rightarrow> event list" where
  "loadPriceAlerts_events n = concat (replicate n [ReadTable, WriteTable])"

text \<open>
  \<^verbatim>\<open>processProductUpdate\<close>: the lookup of line 125 and, for each successful publish,
  the loop of lines 167 to 171, which reads each stored alert and stamps those of the
  user (for each alert, whether it is the user's).
\<close>

definition processProductUpdate_events :: "bool list list \<Rightarrow> event list" where
  "processProductUpdate_events publishes =
     ReadTable #
     concat (map (\<lambda>alerts.
       ReadTable # concat (map (\<lambda>sameUser. ReadTable # (if sameUser then [WriteTable] else []))
                             alerts))
       publishes)"

text \<open>\<^verbatim>\<open>createPriceAlert\<close>, api.go line 400, once the request is validated.\<close>

definition createPriceAlert_events :: "event list" where
  "createPriceAlert_events = [ReadTable, WriteTable]"

text \<open>\<^verbatim>\<open>getUserPriceAlerts\<close>, api.go line 439, over a table of \<open>n\<close> entries.\<close>

definition getUserPriceAlerts_events :: "nat \<Rightarrow> event list" where
  "getUserPriceAlerts_events n = replicate n ReadTable"

text \<open>\<^verbatim>\<open>deletePriceAlert\<close>, api.go lines 485 to 489.\<close>

definition deletePriceAlert_events :: "bool \<Rightarrow> event list" where
  "deletePriceAlert_events found = ReadTable # (if found then [WriteTable] else [])"

section \<open>Properties of the priority selections\<close>

lemma sel_conv: "[productID. (productID, priority) \<leftarrow> kvs, P priority] = map fst (filter (\<lambda>kv. P (snd kv)) kvs)"
  by (induction kvs) auto

lemma ranges_lookup: "ranges kvs m \<Longrightarrow> (k, p) \<in> set kvs \<longleftrightarrow> m k = Some p"
  unfolding ranges_def by (auto simp: map_of_eq_Some_iff[symmetric] dest: map_of_SomeD)

lemma high_set: "ranges kvs m \<Longrightarrow> set (highPriorityProducts kvs) = {k. \<exists>p. m k = Some p \<and> p \<ge> 5}"
  unfolding highPriorityProducts_def sel_conv
  by (auto simp: ranges_lookup image_iff)

lemma high_distinct: "ranges kvs m \<Longrightarrow> distinct (highPriorityProducts kvs)"
  unfolding highPriorityProducts_def sel_conv ranges_def
  by (simp add: distinct_map_filter)

lemma regular_candidates: "ranges kvs m \<Longrightarrow>
   set (map fst (filter (\<lambda>kv. snd kv < 5) kvs)) = {k. \<exists>p. m k = Some p \<and> p < 5}"
  by (auto simp: ranges_lookup image_iff)

lemma regular_take: "regularPriorityProducts kvs = take maxProducts (map fst (filter (\<lambda>kv. snd kv < 5) kvs))"
  unfolding regularPriorityProducts_def sel_conv by (simp add: Let_def)

lemma regular_subset: "ranges kvs m \<Longrightarrow> set (regularPriorityProducts kvs) \<subseteq> {k. \<exists>p. m k = Some p \<and> p < 5}"
  using regular_candidates[of kvs m] set_take_subset[of maxProducts "map fst (filter (\<lambda>kv. snd kv < 5) kvs)"]
  unfolding regular_take by blast

lemma regular_length: "length (regularPriorityProducts kvs) \<le> 100"
  unfolding regular_take maxProducts_def by simp

lemma regular_distinct: "ranges kvs m \<Longrightarrow> distinct (regularPriorityProducts kvs)"
  unfolding regular_take ranges_def
  by (simp add: distinct_map_filter)

lemma regular_all:
  assumes "ranges kvs m" and "card {k. \<exists>p. m k = Some p \<and> p < 5} \<le> 100"
  shows "set (regularPriorityProducts kvs) = {k. \<exists>p. m k = Some p \<and> p < 5}"
proof -
  let ?c = "map fst (filter (\<lambda>kv. snd kv < 5) kvs)"
  have d: "distinct ?c" using assms(1) unfolding ranges_def by (simp add: distinct_map_filter)
  have "length ?c = card (set ?c)" using distinct_card[OF d] by linarith
  also have "\<dots> \<le> 100" using assms regular_candidates[OF assms(1)] by simp
  finally have "take maxProducts ?c = ?c" unfolding maxProducts_def by simp
  then show ?thesis using regular_candidates[OF assms(1)] unfolding regular_take by simp
qed

lemma regular_in_order:
  assumes "ranges kvs m"
  shows "regularPriorityProducts kvs =
         take 100 (filter (\<lambda>k. \<exists>p. m k = Some p \<and> p < 5) (map fst kvs))"
proof -
  have "\<And>kv. kv \<in> set kvs \<Longrightarrow> (\<exists>p. m (fst kv) = Some p \<and> p < 5) \<longleftrightarrow> snd kv < 5"
  proof -
    fix kv assume "kv \<in> set kvs"
    then have "(fst kv, snd kv) \<in> set kvs" by simp
    then have "m (fst kv) = Some (snd kv)" using ranges_lookup[OF assms] by blast
    then show "(\<exists>p. m (fst kv) = Some p \<and> p < 5) \<longleftrightarrow> snd kv < 5" by simp
  qed
  then have "filter ((\<lambda>k. \<exists>p. m k = Some p \<and> p < 5) \<circ> fst) kvs = filter (\<lambda>kv. snd kv < 5) kvs"
    by (intro filter_cong) simp_all
  then show ?thesis
    unfolding regular_take maxProducts_def by (simp add: filter_map)
qed

lemma regular_count:
  assumes "ranges kvs m"
  shows "length (regularPriorityProducts kvs) = min 100 (card {k. \<exists>p. m k = Some p \<and> p < 5})"
proof -
  let ?c = "map fst (filter (\<lambda>kv. snd kv < 5) kvs)"
  have d: "distinct ?c" using assms unfolding ranges_def by (simp add: distinct_map_filter)
  have "length ?c = card (set ?c)" using distinct_card[OF d] by linarith
  also have "\<dots> = card {k. \<exists>p. m k = Some p \<and> p < 5}"
    using regular_candidates[OF assms] by simp
  finally have "length ?c = card {k. \<exists>p. m k = Some p \<and> p < 5}" .
  then show ?thesis unfolding regular_take maxProducts_def by simp
qed

text \<open>
  Claim C4, as the code has it. For every table \<open>m\<close> and every order \<open>kvs\<close> in which
  \<^verbatim>\<open>range\<close> yields it: the high-priority tick selects exactly the entries of
  priority at least 5, each once. The regular tick selects the first 100, in the order of
  iteration, of the entries of priority below 5: only such entries, each once, 100 of
  them when the table holds more than 100 and all of them otherwise. An entry of
  priority 7 is in the high selection and not in the regular one; an entry of priority 3
  is not in the high selection, and it is in the regular selection whenever the table
  holds at most 100 entries of priority below 5 (beyond that the cap leaves some out).
\<close>

theorem priority_banding:
  assumes "ranges kvs m"
  shows "set (highPriorityProducts kvs) = {k. \<exists>p. m k = Some p \<and> p \<ge> 5}
    \<and> distinct (highPriorityProducts kvs)
    \<and> regularPriorityProducts kvs =
        take 100 (filter (\<lambda>k. \<exists>p. m k = Some p \<and> p < 5) (map fst kvs))
    \<and> set (regularPriorityProducts kvs) \<subseteq> {k. \<exists>p. m k = Some p \<and> p < 5}
    \<and> distinct (regularPriorityProducts kvs)
    \<and> length (regularPriorityProducts kvs) = min 100 (card {k. \<exists>p. m k = Some p \<and> p < 5})
    \<and> (card {k. \<exists>p. m k = Some p \<and> p < 5} \<le> 100 \<longrightarrow>
          set (regularPriorityProducts kvs) = {k. \<exists>p. m k = Some p \<and> p < 5})
    \<and> (m k = Some 7 \<longrightarrow>
          k \<in> set (highPriorityProducts kvs) \<and> k \<notin> set (regularPriorityProducts kvs))
    \<and> (m k = Some 3 \<longrightarrow> k \<notin> set (highPriorityProducts kvs)
          \<and> (card {k. \<exists>p. m k = Some p \<and> p < 5} \<le> 100 \<longrightarrow>
                 k \<in> set (regularPriorityProducts kvs)))"
proof -
  have h: "set (highPriorityProducts kvs) = {k. \<exists>p. m k = Some p \<and> p \<ge> 5}"
    by (rule high_set[OF assms])
  have r: "set (regularPriorityProducts kvs) \<subseteq> {k. \<exists>p. m k = Some p \<and> p < 5}"
    by (rule regular_subset[OF assms])
  have o: "regularPriorityProducts kvs =
        take 100 (filter (\<lambda>k. \<exists>p. m k = Some p \<and> p < 5) (map fst kvs))"
    by (rule regular_in_order[OF assms])
  have c: "length (regularPriorityProducts kvs) = min 100 (card {k. \<exists>p. m k = Some p \<and> p < 5})"
    by (rule regular_count[OF assms])
  have e: "card {k. \<exists>p. m k = Some p \<and> p < 5} \<le> 100 \<longrightarrow>
          set (regularPriorityProducts kvs) = {k. \<exists>p. m k = Some p \<and> p < 5}"
    using regular_all[OF assms] by blast
  have seven: "m k = Some 7 \<longrightarrow>
      k \<in> set (highPriorityProducts kvs) \<and> k \<notin> set (regularPriorityProducts kvs)"
    using h r by auto
  have three: "m k = Some 3 \<longrightarrow> k \<notin> set (highPriorityProducts kvs)
      \<and> (card {k. \<exists>p. m k = Some p \<and> p < 5} \<le> 100 \<longrightarrow>
             k \<in> set (regularPriorityProducts kvs))"
    using h regular_all[OF assms] by auto
  note d1 = high_distinct[OF assms] and d2 = regular_distinct[OF assms]
  show ?thesis
    apply (intro conjI)
    apply (rule h)
    apply (rule d1)
    apply (rule o)
    apply (rule r)
    apply (rule d2)
    apply (rule c)
    apply (rule e)
    apply (rule seven)
    apply (rule three)
    done
qed

text \<open>
  The theorem at a table of two entries, of priorities 7 and 3: the first is selected by
  the high-priority tick only, the second by the regular tick only.
\<close>

theorem priority_banding_witness:
  "ranges [(''a'', 7), (''b'', 3)] [''a'' \<mapsto> 7, ''b'' \<mapsto> 3]
   \<and> ''a'' \<in> set (highPriorityProducts [(''a'', 7), (''b'', 3)])
   \<and> ''a'' \<notin> set (regularPriorityProducts [(''a'', 7), (''b'', 3)])
   \<and> ''b'' \<notin> set (highPriorityProducts [(''a'', 7), (''b'', 3)])
   \<and> card {k. \<exists>p. [''a'' \<mapsto> 7, ''b'' \<mapsto> 3::int] k = Some p \<and> p < 5} \<le> 100
   \<and> ''b'' \<in> set (regularPriorityProducts [(''a'', 7), (''b'', 3)])
   \<and> length (regularPriorityProducts [(''a'', 7), (''b'', 3)]) = 1"
proof -
  have r: "ranges [(''a'', 7), (''b'', 3)] [''a'' \<mapsto> 7, ''b'' \<mapsto> 3]"
    unfolding ranges_def by auto
  have a: "[''a'' \<mapsto> 7, ''b'' \<mapsto> 3::int] ''a'' = Some 7" by simp
  have b: "[''a'' \<mapsto> 7, ''b'' \<mapsto> 3::int] ''b'' = Some 3" by simp
  have low: "{k. \<exists>p. [''a'' \<mapsto> 7, ''b'' \<mapsto> 3::int] k = Some p \<and> p < 5} = {''b''}"
    by (auto split: if_splits)
  have cd: "card {k. \<exists>p. [''a'' \<mapsto> 7, ''b'' \<mapsto> 3::int] k = Some p \<and> p < 5} = 1"
    unfolding low by simp
  then have c: "card {k. \<exists>p. [''a'' \<mapsto> 7, ''b'' \<mapsto> 3::int] k = Some p \<and> p < 5} \<le> 100"
    by linarith
  note ta = priority_banding[OF r, of "''a''"]
  note tb = priority_banding[OF r, of "''b''"]
  have seven: "''a'' \<in> set (highPriorityProducts [(''a'', 7), (''b'', 3)])
      \<and> ''a'' \<notin> set (regularPriorityProducts [(''a'', 7), (''b'', 3)])"
    using ta a by blast
  have three: "''b'' \<notin> set (highPriorityProducts [(''a'', 7), (''b'', 3)])
      \<and> ''b'' \<in> set (regularPriorityProducts [(''a'', 7), (''b'', 3)])"
    using tb b c by blast
  have "length (regularPriorityProducts [(''a'', 7), (''b'', 3)])
      = min 100 (card {k. \<exists>p. [''a'' \<mapsto> 7, ''b'' \<mapsto> 3::int] k = Some p \<and> p < 5})"
    using ta by blast
  then have len: "length (regularPriorityProducts [(''a'', 7), (''b'', 3)]) = 1"
    unfolding cd by simp
  from r seven three c len show ?thesis by blast
qed

lemma lowBandKey_inj: "lowBandKey a = lowBandKey b \<longleftrightarrow> a = b"
  unfolding lowBandKey_def by (metis length_replicate nat.inject)

lemma lowBand101_keys: "map fst lowBand101 = map lowBandKey [0..<101]"
  unfolding lowBand101_def by simp

lemma lowBand101_distinct: "distinct (map fst lowBand101)"
  unfolding lowBand101_keys by (simp add: distinct_map inj_on_def lowBandKey_inj)

lemma lowBand101_filter: "filter (\<lambda>kv. snd kv < 5) lowBand101 = lowBand101"
  unfolding lowBand101_def by (simp add: filter_map o_def)

lemma lowBand101_regular: "regularPriorityProducts lowBand101 = map lowBandKey [0..<100]"
proof -
  have "take 100 (map lowBandKey [0..<101]) = map lowBandKey [0..<100]"
    by (simp add: take_map)
  then show ?thesis
    unfolding regular_take lowBand101_filter lowBand101_keys maxProducts_def by simp
qed

text \<open>
  Claim C4 as the specification words it fails: in a table of 101 entries of priority 3
  the cap of \<^verbatim>\<open>crawlRegularPriorityProducts\<close> drops the entry the loop meets last.
\<close>

theorem priority_banding_counterexample:
  "ranges lowBand101 (map_of lowBand101) \<and> map_of lowBand101 (lowBandKey 100) = Some 3
   \<and> lowBandKey 100 \<notin> set (regularPriorityProducts lowBand101)"
proof -
  have "(lowBandKey 100, 3) \<in> set lowBand101" unfolding lowBand101_def
    by (auto simp: image_iff intro!: bexI[of _ 100])
  then have "map_of lowBand101 (lowBandKey 100) = Some 3"
    using lowBand101_distinct by simp
  moreover have "lowBandKey 100 \<notin> set (regularPriorityProducts lowBand101)"
    unfolding lowBand101_regular by (auto simp: lowBandKey_inj)
  ultimately show ?thesis unfolding ranges_def using lowBand101_distinct by simp
qed

lemma lowBand101_count: "length (regularPriorityProducts lowBand101) = 100"
  unfolding lowBand101_regular by simp

section \<open>Properties of the priority table's mutations\<close>

lemma bandsInRange_upd:
  "bandsInRange m \<Longrightarrow> 0 \<le> p \<Longrightarrow> p \<le> 10 \<Longrightarrow> bandsInRange (m(k \<mapsto> p))"
  unfolding bandsInRange_def by (simp split: if_splits)

lemma fold_bands:
  "bandsInRange m \<Longrightarrow> bandsInRange (fold (\<lambda>favorite m. m(favorite \<mapsto> 10)) favs m)"
proof (induction favs arbitrary: m)
  case Nil
  then show ?case by simp
next
  case (Cons a favs)
  have "bandsInRange (m(a \<mapsto> 10))"
    by (rule bandsInRange_upd[OF Cons.prems]) simp_all
  from Cons.IH[OF this] show ?case by simp
qed

lemma loadPriorityList_bands:
  "bandsInRange m \<Longrightarrow> bandsInRange (snd (loadPriorityList fails favs m))"
  by (simp add: loadPriorityList_def fold_bands)

lemma ensurePriorityEntry_bands:
  "bandsInRange m \<Longrightarrow> bandsInRange (ensurePriorityEntry k m)"
  by (simp add: ensurePriorityEntry_def bandsInRange_upd split: option.splits)

lemma updateProductPriority_bands:
  "bandsInRange m \<Longrightarrow> bandsInRange (snd (updateProductPriority fails db k request m))"
  by (simp add: updateProductPriority_def bandsInRange_upd
      split: option.splits sum.splits dberror.splits)

lemma updateProductPriority_rejects:
  "p < 0 \<or> p > 10 \<Longrightarrow> updateProductPriority fails db k (Some p) m = (StatusBadRequest, m)"
  by (simp add: updateProductPriority_def)

text \<open>
  Claim C7 at a message the handler of \<^verbatim>\<open>listenForPriorityUpdates\<close> can receive,
  \<^verbatim>\<open>{"product_id": "p1", "priority": 42}\<close>, on the empty table: the handler returns no
  error and installs band 42, so the bands of the table are no longer within 0 to 10.
  The API handler rejects the same band and leaves the table as it was.
\<close>

theorem priority_update_event_unchecked:
  "listenForPriorityUpdates (Some \<lparr>puProductID = ''p1'', puPriority = 42\<rparr>) Map.empty
     = (None, [''p1'' \<mapsto> 42])
   \<and> snd (listenForPriorityUpdates (Some \<lparr>puProductID = ''p1'', puPriority = 42\<rparr>) Map.empty)
       ''p1'' = Some 42
   \<and> updateProductPriority fails db ''p1'' (Some 42) Map.empty = (StatusBadRequest, Map.empty)"
  by (simp add: listenForPriorityUpdates_def updateProductPriority_def)

lemma priority_update_event_breaks_bands:
  "bandsInRange Map.empty \<and> \<not> bandsInRange [''p1'' \<mapsto> 42]"
proof -
  have b: "bandsInRange Map.empty"
    by (simp add: bandsInRange_def)
  have "[''p1'' \<mapsto> 42::int] ''p1'' = Some 42" by simp
  then have c: "\<not> bandsInRange [''p1'' \<mapsto> 42]"
    unfolding bandsInRange_def by fastforce
  from b c show ?thesis by blast
qed

section \<open>Properties of \<^verbatim>\<open>saveProduct\<close>\<close>

lemma find_append_case:
  "find P (xs @ ys) = (case find P xs of None \<Rightarrow> find P ys | Some x \<Rightarrow> Some x)"
  by (induction xs) simp_all

lemma existingVariantMap_find:
  "existingVariantMap vs k = find (\<lambda>v. vExternalID v = k) (rev vs)"
proof -
  define f where "f = (\<lambda>variant (m :: string \<rightharpoonup> variant). m(vExternalID variant \<mapsto> variant))"
  have "fold f vs m0 k =
        (case find (\<lambda>v. vExternalID v = k) (rev vs) of None \<Rightarrow> m0 k | Some v \<Rightarrow> Some v)" for m0
  proof (induction vs arbitrary: m0)
    case Nil
    then show ?case by simp
  next
    case (Cons a vs)
    have "fold f (a # vs) m0 k = fold f vs (f a m0) k" by simp
    also have "\<dots> = (case find (\<lambda>v. vExternalID v = k) (rev vs) of
                         None \<Rightarrow> (f a m0) k | Some v \<Rightarrow> Some v)"
      by (rule Cons.IH)
    also have "\<dots> = (case find (\<lambda>v. vExternalID v = k) (rev (a # vs)) of
                         None \<Rightarrow> m0 k | Some v \<Rightarrow> Some v)"
      by (simp add: find_append_case f_def split: option.splits)
    finally show ?case .
  qed
  from this[of Map.empty] show ?thesis
    unfolding existingVariantMap_def f_def by (simp split: option.splits)
qed


lemma compareVariants_histories:
  "compareVariants fails ep m i vars tx = Inr (vs, tx') \<Longrightarrow>
   priceHistories tx' = priceHistories tx @
     concat (map (\<lambda>variant.
       case m (vExternalID variant) of
         None \<Rightarrow> []
       | Some ev \<Rightarrow>
           if vPrice ev = vPrice variant then []
           else [\<lparr>phProductID = pID ep, phVariantID = vID ev,
                  phPreviousPrice = vPrice ev, phNewPrice = vPrice variant,
                  phChangePercent = (if vPrice ev = 0 then 0
                     else (vPrice variant - vPrice ev) / vPrice ev * 100)\<rparr>]) vars)
   \<and> stockHistories tx' = stockHistories tx @
     concat (map (\<lambda>variant.
       case m (vExternalID variant) of
         None \<Rightarrow> []
       | Some ev \<Rightarrow>
           if vStockCount ev = vStockCount variant then []
           else [\<lparr>shProductID = pID ep, shVariantID = vID ev,
                  shPreviousStock = vStockCount ev, shNewStock = vStockCount variant,
                  shChangeQuantity = vStockCount variant - vStockCount ev\<rparr>]) vars)"
proof (induction vars arbitrary: i tx vs tx')
  case Nil
  then show ?case by simp
next
  case (Cons variant rest)
  show ?case
  proof (cases "m (vExternalID variant)")
    case None
    with Cons.prems obtain vs0 where
      r: "compareVariants fails ep m (Suc i) rest tx = Inr (vs0, tx')"
      by (auto split: sum.splits)
    from Cons.IH[OF r] None show ?thesis by simp
  next
    case (Some ev)
    let ?tx1 = "if vPrice ev \<noteq> vPrice variant
                       then tx\<lparr>priceHistories := priceHistories tx @
                              [\<lparr>phProductID = pID ep,
                                phVariantID = vID ev,
                                phPreviousPrice = vPrice ev,
                                phNewPrice = vPrice variant,
                                phChangePercent = calculatePercentageChange
                                  (vPrice ev) (vPrice variant)\<rparr>]\<rparr>
                       else tx"
    let ?tx2 = "if vStockCount ev \<noteq> vStockCount variant
                            then ?tx1\<lparr>stockHistories := stockHistories ?tx1 @
                                   [\<lparr>shProductID = pID ep,
                                     shVariantID = vID ev,
                                     shPreviousStock = vStockCount ev,
                                     shNewStock = vStockCount variant,
                                     shChangeQuantity = vStockCount variant
                                       - vStockCount ev\<rparr>]\<rparr>
                            else ?tx1"
    from Cons.prems Some obtain vs0 where
      r: "compareVariants fails ep m (Suc i) rest ?tx2 = Inr (vs0, tx')"
      by (auto simp: Let_def split: sum.splits if_splits)
    have p: "priceHistories ?tx2 = priceHistories tx @
        (if vPrice ev = vPrice variant then []
           else [\<lparr>phProductID = pID ep, phVariantID = vID ev,
                  phPreviousPrice = vPrice ev, phNewPrice = vPrice variant,
                  phChangePercent = (if vPrice ev = 0 then 0
                     else (vPrice variant - vPrice ev) / vPrice ev * 100)\<rparr>])"
      by (simp add: calculatePercentageChange_def)
    have s: "stockHistories ?tx2 = stockHistories tx @
        (if vStockCount ev = vStockCount variant then []
           else [\<lparr>shProductID = pID ep, shVariantID = vID ev,
                  shPreviousStock = vStockCount ev, shNewStock = vStockCount variant,
                  shChangeQuantity = vStockCount variant - vStockCount ev\<rparr>])"
      by simp
    from Cons.IH[OF r] show ?thesis unfolding p s using Some by simp
  qed
qed


lemma compareVariants_total:
  "(\<And>j. \<not> fails (OpCreatePriceHistory j)) \<Longrightarrow> (\<And>j. \<not> fails (OpCreateStockHistory j)) \<Longrightarrow>
   \<exists>vs tx'. compareVariants fails ep m i vars tx = Inr (vs, tx')"
proof (induction vars arbitrary: i tx)
  case Nil
  then show ?case by simp
next
  case (Cons variant rest)
  show ?case
  proof (cases "m (vExternalID variant)")
    case None
    from Cons.IH[OF Cons.prems, of "Suc i" tx] obtain vs tx' where
      "compareVariants fails ep m (Suc i) rest tx = Inr (vs, tx')" by blast
    then show ?thesis using None by simp
  next
    case (Some ev)
    let ?tx1 = "if vPrice ev \<noteq> vPrice variant
                       then tx\<lparr>priceHistories := priceHistories tx @
                              [\<lparr>phProductID = pID ep,
                                phVariantID = vID ev,
                                phPreviousPrice = vPrice ev,
                                phNewPrice = vPrice variant,
                                phChangePercent = calculatePercentageChange
                                  (vPrice ev) (vPrice variant)\<rparr>]\<rparr>
                       else tx"
    let ?tx2 = "if vStockCount ev \<noteq> vStockCount variant
                            then ?tx1\<lparr>stockHistories := stockHistories ?tx1 @
                                   [\<lparr>shProductID = pID ep,
                                     shVariantID = vID ev,
                                     shPreviousStock = vStockCount ev,
                                     shNewStock = vStockCount variant,
                                     shChangeQuantity = vStockCount variant
                                       - vStockCount ev\<rparr>]\<rparr>
                            else ?tx1"
    from Cons.IH[OF Cons.prems, of "Suc i" ?tx2] obtain vs tx' where
      "compareVariants fails ep m (Suc i) rest ?tx2 = Inr (vs, tx')" by blast
    then show ?thesis using Some Cons.prems by (simp add: Let_def)
  qed
qed

lemma compareVariants_variants:
  "compareVariants fails ep m i vars tx = Inr (vs, tx') \<Longrightarrow>
   vs = map (\<lambda>variant. case m (vExternalID variant) of
                          None \<Rightarrow> variant
                        | Some ev \<Rightarrow> variant\<lparr>vID := vID ev, vProductID := pID ep\<rparr>) vars"
proof (induction vars arbitrary: i tx vs tx')
  case Nil
  then show ?case by simp
next
  case (Cons variant rest)
  show ?case
  proof (cases "m (vExternalID variant)")
    case None
    with Cons.prems obtain vs0 where
      r: "compareVariants fails ep m (Suc i) rest tx = Inr (vs0, tx')" and v: "vs = variant # vs0"
      by (auto split: sum.splits)
    from Cons.IH[OF r] v None show ?thesis by simp
  next
    case (Some ev)
    with Cons.prems obtain vs0 tx2 where
      r: "compareVariants fails ep m (Suc i) rest tx2 = Inr (vs0, tx')"
      and v: "vs = variant\<lparr>vID := vID ev, vProductID := pID ep\<rparr> # vs0"
      by (auto simp: Let_def split: sum.splits if_splits)
    from Cons.IH[OF r] v Some show ?thesis by simp
  qed
qed

lemma saveAndCommit_cases:
  "saveAndCommit fails now db tx p = (r, db') \<Longrightarrow>
   (r \<noteq> None \<and> db' = db) \<or>
   (r = None \<and> \<not> fails OpSave \<and> \<not> fails OpCommit \<and> db' = Save now p tx)"
  by (auto simp: saveAndCommit_def Commit_def Rollback_def split: if_splits)

lemma saveAndCommit_ok:
  "\<not> fails OpSave \<Longrightarrow> \<not> fails OpCommit \<Longrightarrow> saveAndCommit fails now db tx p = (None, Save now p tx)"
  by (simp add: saveAndCommit_def Commit_def)

lemma saveProduct_new:
  assumes "FirstProduct fails db (pExternalID product) = Inl err"
  shows "saveProduct fails now db product =
     (if fails OpBegin then (Some FailedToBegin, db) else saveAndCommit fails now db db product)"
  using assms by (simp add: saveProduct_def Let_def)

lemma saveProduct_existing:
  assumes "FirstProduct fails db (pExternalID product) = Inr ep"
  shows "saveProduct fails now db product =
     (if fails OpBegin then (Some FailedToBegin, db)
      else if fails OpFindVariants then (Some FailedToFetchExistingVariants, db)
      else (case compareVariants fails ep
                   (existingVariantMap [v \<leftarrow> variants db. vProductID v = pID ep]) 0
                   (pVariants product) db of
              Inl e \<Rightarrow> (Some e, db)
            | Inr (vs, tx') \<Rightarrow>
                saveAndCommit fails now db tx'
                  (product\<lparr>pID := pID ep, pCreatedAt := pCreatedAt ep, pVariants := vs\<rparr>)))"
  using assms by (simp add: saveProduct_def Let_def Rollback_def split: sum.splits)





lemma saveProduct_succeeds:
  assumes "\<And>x. \<not> fails x"
  shows "fst (saveProduct fails now db product) = None"
proof (cases "FirstProduct fails db (pExternalID product)")
  case (Inl err)
  show ?thesis unfolding saveProduct_new[OF Inl] using assms by (simp add: saveAndCommit_ok)
next
  case (Inr ep)
  obtain vs tx' where c: "compareVariants fails ep
                   (existingVariantMap [v \<leftarrow> variants db. vProductID v = pID ep]) 0
                   (pVariants product) db = Inr (vs, tx')"
    using compareVariants_total[of fails ep _ 0 "pVariants product" db] assms by blast
  show ?thesis unfolding saveProduct_existing[OF Inr] c using assms by (simp add: saveAndCommit_ok)
qed





section \<open>Reconciling a new product twice\<close>

lemma fold_max_ge: "x \<in> set xs \<Longrightarrow> x \<le> fold max xs (a::nat)"
proof -
  assume "x \<in> set xs"
  then have "x \<le> Max (set (a # xs))" by simp
  then show ?thesis by (simp only: Max.set_eq_fold)
qed

lemma fold_max_ge_init: "(a::nat) \<le> fold max xs a"
proof -
  have "a \<le> Max (set (a # xs))" by simp
  then show ?thesis by (simp only: Max.set_eq_fold)
qed

lemma nextID_fresh: "x \<in> set ids \<Longrightarrow> x < nextID ids"
  unfolding nextID_def using fold_max_ge[of x ids 0] by simp

lemma nextID_pos: "0 < nextID ids"
  unfolding nextID_def by simp

lemma nextID_notin: "nextID ids \<notin> set ids"
  using nextID_fresh[of "nextID ids" ids] by blast

lemma upsert_new: "key r \<notin> key ` set rows \<Longrightarrow> upsert key r rows = rows @ [r]"
  by (simp add: upsert_def)

lemma upsert_same:
  assumes "r \<in> set rows" and "\<And>x. x \<in> set rows \<Longrightarrow> key x = key r \<Longrightarrow> x = r"
  shows "upsert key r rows = rows"
proof -
  have "key r \<in> key ` set rows" using assms(1) by blast
  moreover have "map (\<lambda>x. if key x = key r then r else x) rows = rows"
    using assms(2) by (induction rows) auto
  ultimately show ?thesis by (simp add: upsert_def)
qed

lemma fold_SaveVariant_new:
  "(\<And>v. v \<in> set vs \<Longrightarrow> vID v = 0) \<Longrightarrow>
   fold (SaveVariant pid) vs rows = rows @ assignIDs pid vs (map vID rows)"
proof (induction vs arbitrary: rows)
  case Nil
  then show ?case by simp
next
  case (Cons v vs)
  have z: "vID v = 0" using Cons.prems by simp
  let ?v2 = "v\<lparr>vProductID := pid, vID := nextID (map vID rows)\<rparr>"
  have "vID ?v2 \<notin> vID ` set rows" using nextID_notin[of "map vID rows"] by simp
  then have s: "SaveVariant pid v rows = rows @ [?v2]"
    using z by (simp add: SaveVariant_def Let_def upsert_new)
  have "fold (SaveVariant pid) (v # vs) rows = fold (SaveVariant pid) vs (rows @ [?v2])"
    by (simp add: s)
  also have "\<dots> = (rows @ [?v2]) @ assignIDs pid vs (map vID (rows @ [?v2]))"
    using Cons.IH[of "rows @ [?v2]"] Cons.prems by simp
  finally show ?case by simp
qed

lemma assignIDs_length [simp]: "length (assignIDs pid vs used) = length vs"
  by (induction vs arbitrary: used) simp_all

lemma assignIDs_fields:
  "j < length vs \<Longrightarrow>
   vExternalID (assignIDs pid vs used ! j) = vExternalID (vs ! j)
   \<and> vPrice (assignIDs pid vs used ! j) = vPrice (vs ! j)
   \<and> vOriginalPrice (assignIDs pid vs used ! j) = vOriginalPrice (vs ! j)
   \<and> vStockCount (assignIDs pid vs used ! j) = vStockCount (vs ! j)
   \<and> vProductID (assignIDs pid vs used ! j) = pid
   \<and> assignIDs pid vs used ! j = (vs ! j)\<lparr>vProductID := pid, vID := vID (assignIDs pid vs used ! j)\<rparr>"
proof (induction vs arbitrary: used j)
  case Nil
  then show ?case by simp
next
  case (Cons v vs)
  show ?case
  proof (cases j)
    case 0
    then show ?thesis by simp
  next
    case (Suc j')
    with Cons.prems have "j' < length vs" by simp
    from Cons.IH[OF this, of "used @ [nextID used]"] Suc show ?thesis by simp
  qed
qed

lemma assignIDs_ids_fresh:
  "r \<in> set (assignIDs pid vs used) \<Longrightarrow> vID r \<noteq> 0 \<and> vID r \<notin> set used"
proof (induction vs arbitrary: used)
  case Nil
  then show ?case by simp
next
  case (Cons v vs)
  from Cons.prems have "r = v\<lparr>vProductID := pid, vID := nextID used\<rparr>
      \<or> r \<in> set (assignIDs pid vs (used @ [nextID used]))" by simp
  then show ?case
  proof
    assume "r = v\<lparr>vProductID := pid, vID := nextID used\<rparr>"
    then show ?thesis using nextID_notin[of used] nextID_pos[of used] by simp
  next
    assume "r \<in> set (assignIDs pid vs (used @ [nextID used]))"
    from Cons.IH[OF this] show ?thesis by simp
  qed
qed

lemma assignIDs_distinct: "distinct (map vID (assignIDs pid vs used))"
proof (induction vs arbitrary: used)
  case Nil
  then show ?case by simp
next
  case (Cons v vs)
  have "nextID used \<notin> vID ` set (assignIDs pid vs (used @ [nextID used]))"
  proof
    assume "nextID used \<in> vID ` set (assignIDs pid vs (used @ [nextID used]))"
    then obtain r where r: "r \<in> set (assignIDs pid vs (used @ [nextID used]))"
      and e: "vID r = nextID used" by auto
    from assignIDs_ids_fresh[OF r] have "vID r \<notin> set (used @ [nextID used])" by blast
    then show False using e by simp
  qed
  then show ?case using Cons.IH[of "used @ [nextID used]"] by simp
qed

lemma assignIDs_pid: "r \<in> set (assignIDs pid vs used) \<Longrightarrow> vProductID r = pid"
  by (induction vs arbitrary: used) auto

lemma assignIDs_ext: "map vExternalID (assignIDs pid vs used) = map vExternalID vs"
  by (induction vs arbitrary: used) simp_all

lemma fold_identity:
  "(\<And>r. r \<in> set rs \<Longrightarrow> F r rows = rows) \<Longrightarrow> fold F rs rows = rows"
  by (induction rs) simp_all

lemma distinct_map_eq:
  "distinct (map f xs) \<Longrightarrow> x \<in> set xs \<Longrightarrow> y \<in> set xs \<Longrightarrow> f x = f y \<Longrightarrow> x = y"
  by (meson distinct_map inj_onD)

lemma find_Some_mem: "find P xs = Some y \<Longrightarrow> y \<in> set xs \<and> P y"
  by (induction xs) (auto split: if_splits)

lemma find_rev_distinct:
  assumes "distinct (map f xs)" and "j < length xs"
  shows "find (\<lambda>x. f x = f (xs ! j)) (rev xs) = Some (xs ! j)"
proof -
  have m: "xs ! j \<in> set (rev xs)" using assms(2) by simp
  then obtain y where y: "find (\<lambda>x. f x = f (xs ! j)) (rev xs) = Some y"
    by (cases "find (\<lambda>x. f x = f (xs ! j)) (rev xs)") (auto simp: find_None_iff)
  from find_Some_mem[OF y] have "y \<in> set xs" "f y = f (xs ! j)"
    by simp_all
  then have "y = xs ! j" using distinct_map_eq[OF assms(1)] assms(2) by (metis nth_mem)
  with y show ?thesis by simp
qed

lemma compareVariants_store:
  "compareVariants fails ep m i vars tx = Inr (vs, tx') \<Longrightarrow>
   tx' = tx\<lparr>priceHistories := priceHistories tx', stockHistories := stockHistories tx'\<rparr>"
proof (induction vars arbitrary: i tx vs tx')
  case Nil
  then show ?case by simp
next
  case (Cons variant rest)
  show ?case
  proof (cases "m (vExternalID variant)")
    case None
    with Cons.prems obtain vs0 where
      r: "compareVariants fails ep m (Suc i) rest tx = Inr (vs0, tx')"
      by (auto split: sum.splits)
    from Cons.IH[OF r] show ?thesis .
  next
    case (Some ev)
    with Cons.prems obtain vs0 tx2 where
      r: "compareVariants fails ep m (Suc i) rest tx2 = Inr (vs0, tx')"
      and t: "tx2 = tx\<lparr>priceHistories := priceHistories tx2, stockHistories := stockHistories tx2\<rparr>"
      by (auto simp: Let_def split: sum.splits if_splits)
    from Cons.IH[OF r] have "tx' = tx2\<lparr>priceHistories := priceHistories tx',
        stockHistories := stockHistories tx'\<rparr>" .
    then have "tx' = (tx\<lparr>priceHistories := priceHistories tx2, stockHistories := stockHistories tx2\<rparr>)
        \<lparr>priceHistories := priceHistories tx', stockHistories := stockHistories tx'\<rparr>"
      using t by simp
    then show ?thesis by simp
  qed
qed

lemma Save_new:
  assumes "pID p = 0" and "\<And>v. v \<in> set (pVariants p) \<Longrightarrow> vID v = 0"
  shows "Save now p db =
     db\<lparr>products := products db @
            [p\<lparr>pID := nextID (map pID (products db)),
               pCreatedAt := (if pCreatedAt p = 0 then now else pCreatedAt p),
               pVariants := []\<rparr>],
        variants := variants db @
            assignIDs (nextID (map pID (products db))) (pVariants p) (map vID (variants db))\<rparr>"
proof -
  let ?id = "nextID (map pID (products db))"
  let ?row = "p\<lparr>pID := ?id, pCreatedAt := (if pCreatedAt p = 0 then now else pCreatedAt p),
                 pVariants := []\<rparr>"
  have "pID ?row \<notin> pID ` set (products db)"
    using nextID_notin[of "map pID (products db)"] by simp
  then have u: "upsert pID ?row (products db) = products db @ [?row]" by (rule upsert_new)
  have f: "fold (SaveVariant ?id) (pVariants p) (variants db)
      = variants db @ assignIDs ?id (pVariants p) (map vID (variants db))"
    by (rule fold_SaveVariant_new) (rule assms(2))
  show ?thesis using assms(1) u f by (simp add: Save_def Let_def)
qed

lemma Save_same:
  assumes "row \<in> set (products db)" and "pID row \<noteq> 0" and "pVariants row = []"
    and "\<And>x. x \<in> set (products db) \<Longrightarrow> pID x = pID row \<Longrightarrow> x = row"
    and "\<And>r. r \<in> set rs \<Longrightarrow> r \<in> set (variants db) \<and> vID r \<noteq> 0 \<and> vProductID r = pID row"
    and "\<And>r x. r \<in> set rs \<Longrightarrow> x \<in> set (variants db) \<Longrightarrow> vID x = vID r \<Longrightarrow> x = r"
  shows "Save now (row\<lparr>pVariants := rs\<rparr>) db = db"
proof -
  have u: "upsert pID row (products db) = products db"
    by (rule upsert_same[OF assms(1)]) (rule assms(4))
  have s: "\<And>r. r \<in> set rs \<Longrightarrow> SaveVariant (pID row) r (variants db) = variants db"
  proof -
    fix r assume r: "r \<in> set rs"
    from assms(5)[OF r] have k: "r \<in> set (variants db)" "vID r \<noteq> 0" "vProductID r = pID row"
      by simp_all
    have e: "r\<lparr>vProductID := pID row\<rparr> = r" using k(3) by simp
    have "upsert vID r (variants db) = variants db"
      by (rule upsert_same[OF k(1)]) (rule assms(6)[OF r])
    then show "SaveVariant (pID row) r (variants db) = variants db"
      using k(2) e by (simp add: SaveVariant_def Let_def)
  qed
  have f: "fold (SaveVariant (pID row)) rs (variants db) = variants db"
    by (rule fold_identity) (rule s)
  have v: "row\<lparr>pVariants := rs, pVariants := []\<rparr> = row" using assms(3) by simp
  show ?thesis using assms(2) u f v by (simp add: Save_def Let_def)
qed

text \<open>
  Claim C8. Take a store in which every variant belongs to a stored product and no
  product has the snapshot's external identifier, and a snapshot as the fetch client
  builds it: no identifiers yet, and the external identifiers of its variants distinct.
  If reconciling it commits, the store gains one product row with the snapshot's fields
  and one variant row for each variant of the snapshot, with the fields it came with and
  fresh identifiers, and no price or stock history. If reconciling the same snapshot
  again commits, the lookup of the product working, the store is left exactly as the
  first call left it: one product row of that external identifier, and no history from
  either call.
\<close>

theorem new_item_twice:
  assumes fk: "\<forall>v \<in> set (variants db). vProductID v \<in> pID ` set (products db)"
    and new: "\<forall>row \<in> set (products db). pExternalID row \<noteq> pExternalID product"
    and noid: "pID product = 0"
    and novid: "\<forall>v \<in> set (pVariants product). vID v = 0"
    and dist: "distinct (map vExternalID (pVariants product))"
    and r1: "saveProduct fails1 t1 db product = (None, db1)"
    and look: "\<not> fails2 OpFirstProduct"
    and r2: "saveProduct fails2 t2 db1 product = (None, db2)"
  shows "products db1 = products db @
           [product\<lparr>pID := nextID (map pID (products db)),
                    pCreatedAt := (if pCreatedAt product = 0 then t1 else pCreatedAt product),
                    pVariants := []\<rparr>]
    \<and> variants db1 = variants db @
           assignIDs (nextID (map pID (products db))) (pVariants product)
             (map vID (variants db))
    \<and> priceHistories db1 = priceHistories db
    \<and> stockHistories db1 = stockHistories db
    \<and> db2 = db1
    \<and> length [row \<leftarrow> products db2. pExternalID row = pExternalID product] = 1"
proof -
  let ?X = "pExternalID product"
  let ?id = "nextID (map pID (products db))"
  let ?row = "product\<lparr>pID := ?id,
                    pCreatedAt := (if pCreatedAt product = 0 then t1 else pCreatedAt product),
                    pVariants := []\<rparr>"
  let ?rows = "assignIDs ?id (pVariants product) (map vID (variants db))"
  let ?inc = "pVariants product"
  \<comment> \<open>the first call\<close>
  have nf: "find (\<lambda>row. pExternalID row = ?X) (products db) = None"
    using new by (simp add: find_None_iff)
  have "\<exists>err. FirstProduct fails1 db ?X = Inl err"
    using nf by (simp add: FirstProduct_def)
  then obtain err where l1: "FirstProduct fails1 db ?X = Inl err" by blast
  from r1[unfolded saveProduct_new[OF l1]]
  have s1: "saveAndCommit fails1 t1 db db product = (None, db1)"
    by (auto split: if_splits)
  from saveAndCommit_cases[OF s1] have d1: "db1 = Save t1 product db" by simp
  have nv: "\<And>v. v \<in> set (pVariants product) \<Longrightarrow> vID v = 0" using novid by blast
  have d1': "db1 = db\<lparr>products := products db @ [?row], variants := variants db @ ?rows\<rparr>"
    unfolding d1 by (rule Save_new[OF noid nv])
  have p1: "products db1 = products db @ [?row]" unfolding d1' by simp
  have v1: "variants db1 = variants db @ ?rows" unfolding d1' by simp
  have ph1: "priceHistories db1 = priceHistories db" unfolding d1' by simp
  have sh1: "stockHistories db1 = stockHistories db" unfolding d1' by simp
  \<comment> \<open>the second call finds the row and the variants just inserted\<close>
  have l2: "FirstProduct fails2 db1 ?X = Inr ?row"
    using look nf by (simp add: FirstProduct_def p1 find_append_case)
  have oldp: "\<And>x. x \<in> set (products db) \<Longrightarrow> pID x \<noteq> ?id"
    using nextID_fresh[of _ "map pID (products db)"] by fastforce
  have oldv: "\<And>v. v \<in> set (variants db) \<Longrightarrow> vProductID v \<noteq> ?id"
    using fk oldp by fastforce
  have "[v \<leftarrow> variants db. vProductID v = ?id] = []"
    using oldv by (simp add: filter_empty_conv)
  moreover have "[v \<leftarrow> ?rows. vProductID v = ?id] = ?rows"
    using assignIDs_pid[of _ ?id ?inc "map vID (variants db)"] by (simp add: filter_id_conv)
  ultimately have ex: "[v \<leftarrow> variants db1. vProductID v = pID ?row] = ?rows"
    unfolding v1 by simp
  have dr: "distinct (map vExternalID ?rows)" unfolding assignIDs_ext by (rule dist)
  have m: "\<And>j. j < length ?inc \<Longrightarrow>
      existingVariantMap ?rows (vExternalID (?inc ! j)) = Some (?rows ! j)"
  proof -
    fix j assume j: "j < length ?inc"
    then have jr: "j < length ?rows" by simp
    have e: "vExternalID (?rows ! j) = vExternalID (?inc ! j)"
      using assignIDs_fields[OF j] by blast
    show "existingVariantMap ?rows (vExternalID (?inc ! j)) = Some (?rows ! j)"
      unfolding existingVariantMap_find using find_rev_distinct[OF dr jr] e by simp
  qed
  from r2[unfolded saveProduct_existing[OF l2]]
  obtain vs tx' where
    c0: "compareVariants fails2 ?row
           (existingVariantMap [v \<leftarrow> variants db1. vProductID v = pID ?row]) 0 ?inc db1
         = Inr (vs, tx')"
    and s2: "saveAndCommit fails2 t2 db1 tx'
               (product\<lparr>pID := pID ?row, pCreatedAt := pCreatedAt ?row, pVariants := vs\<rparr>)
             = (None, db2)"
    by (auto split: if_splits sum.splits)
  note c = c0[unfolded ex]
  \<comment> \<open>the diff finds nothing to record\<close>
  have same: "\<And>v. v \<in> set ?inc \<Longrightarrow>
      \<exists>ev. existingVariantMap ?rows (vExternalID v) = Some ev
        \<and> vPrice ev = vPrice v \<and> vStockCount ev = vStockCount v
        \<and> v\<lparr>vID := vID ev, vProductID := ?id\<rparr> = ev"
  proof -
    fix v assume "v \<in> set ?inc"
    then obtain j where j: "j < length ?inc" and v: "v = ?inc ! j"
      by (auto simp: in_set_conv_nth)
    note f = assignIDs_fields[OF j, of ?id "map vID (variants db)"]
    from f have "?rows ! j = v\<lparr>vProductID := ?id, vID := vID (?rows ! j)\<rparr>"
      unfolding v by blast
    then have "v\<lparr>vID := vID (?rows ! j), vProductID := ?id\<rparr> = ?rows ! j"
      by (metis variant.update_convs(1) variant.update_convs(2) variant.surjective
          variant.select_convs(1) variant.select_convs(2))
    with m[OF j] f show "\<exists>ev. existingVariantMap ?rows (vExternalID v) = Some ev
        \<and> vPrice ev = vPrice v \<and> vStockCount ev = vStockCount v
        \<and> v\<lparr>vID := vID ev, vProductID := ?id\<rparr> = ev"
      unfolding v by simp
  qed
  have hp: "priceHistories tx' = priceHistories db1"
  proof -
    have "\<And>v. v \<in> set ?inc \<Longrightarrow>
       (case existingVariantMap ?rows (vExternalID v) of
         None \<Rightarrow> []
       | Some ev \<Rightarrow>
           if vPrice ev = vPrice v then []
           else [\<lparr>phProductID = pID ?row, phVariantID = vID ev,
                  phPreviousPrice = vPrice ev, phNewPrice = vPrice v,
                  phChangePercent = (if vPrice ev = 0 then 0
                     else (vPrice v - vPrice ev) / vPrice ev * 100)\<rparr>]) = []"
      using same by fastforce
    then show ?thesis using compareVariants_histories[OF c] by simp
  qed
  have hs: "stockHistories tx' = stockHistories db1"
  proof -
    have "\<And>v. v \<in> set ?inc \<Longrightarrow>
       (case existingVariantMap ?rows (vExternalID v) of
         None \<Rightarrow> []
       | Some ev \<Rightarrow>
           if vStockCount ev = vStockCount v then []
           else [\<lparr>shProductID = pID ?row, shVariantID = vID ev,
                  shPreviousStock = vStockCount ev, shNewStock = vStockCount v,
                  shChangeQuantity = vStockCount v - vStockCount ev\<rparr>]) = []"
      using same by fastforce
    then show ?thesis using compareVariants_histories[OF c] by simp
  qed
  have tx: "tx' = db1" using compareVariants_store[OF c] hp hs by simp
  have vs: "vs = ?rows"
  proof -
    have "map (\<lambda>variant. case existingVariantMap ?rows (vExternalID variant) of
                          None \<Rightarrow> variant
                        | Some ev \<Rightarrow> variant\<lparr>vID := vID ev, vProductID := pID ?row\<rparr>) ?inc
          = ?rows"
    proof (rule nth_equalityI)
      show "length (map (\<lambda>variant. case existingVariantMap ?rows (vExternalID variant) of
                          None \<Rightarrow> variant
                        | Some ev \<Rightarrow> variant\<lparr>vID := vID ev, vProductID := pID ?row\<rparr>) ?inc)
            = length ?rows" by simp
    next
      fix j assume "j < length (map (\<lambda>variant. case existingVariantMap ?rows (vExternalID variant) of
                          None \<Rightarrow> variant
                        | Some ev \<Rightarrow> variant\<lparr>vID := vID ev, vProductID := pID ?row\<rparr>) ?inc)"
      then have j: "j < length ?inc" by simp
      then have "?inc ! j \<in> set ?inc" by simp
      from same[OF this] m[OF j]
      have "(?inc ! j)\<lparr>vID := vID (?rows ! j), vProductID := ?id\<rparr> = ?rows ! j" by simp
      then show "map (\<lambda>variant. case existingVariantMap ?rows (vExternalID variant) of
                          None \<Rightarrow> variant
                        | Some ev \<Rightarrow> variant\<lparr>vID := vID ev, vProductID := pID ?row\<rparr>) ?inc ! j
            = ?rows ! j"
        using j m[OF j] by simp
    qed
    then show ?thesis using compareVariants_variants[OF c] by simp
  qed
  \<comment> \<open>the upsert writes what is there\<close>
  from saveAndCommit_cases[OF s2]
  have d2: "db2 = Save t2 (product\<lparr>pID := pID ?row, pCreatedAt := pCreatedAt ?row,
                                   pVariants := vs\<rparr>) tx'" by simp
  have pe: "product\<lparr>pID := pID ?row, pCreatedAt := pCreatedAt ?row, pVariants := vs\<rparr>
      = ?row\<lparr>pVariants := ?rows\<rparr>" unfolding vs by simp
  have idpos: "pID ?row \<noteq> 0" using nextID_pos[of "map pID (products db)"] by simp
  have "Save t2 (?row\<lparr>pVariants := ?rows\<rparr>) db1 = db1"
  proof (rule Save_same)
    show "?row \<in> set (products db1)" unfolding p1 by simp
    show "pID ?row \<noteq> 0" by (rule idpos)
    show "pVariants ?row = []" by simp
  next
    fix x assume "x \<in> set (products db1)" "pID x = pID ?row"
    then show "x = ?row" unfolding p1 using oldp by auto
  next
    fix r assume r: "r \<in> set ?rows"
    show "r \<in> set (variants db1) \<and> vID r \<noteq> 0 \<and> vProductID r = pID ?row"
      unfolding v1 using r assignIDs_ids_fresh[OF r] assignIDs_pid[OF r] by simp
  next
    fix r x assume r: "r \<in> set ?rows" and x: "x \<in> set (variants db1)" and e: "vID x = vID r"
    from x have "x \<in> set (variants db) \<or> x \<in> set ?rows" unfolding v1 by simp
    then show "x = r"
    proof
      assume "x \<in> set (variants db)"
      then have "vID x \<in> set (map vID (variants db))" by simp
      then show ?thesis using assignIDs_ids_fresh[OF r] e by simp
    next
      assume "x \<in> set ?rows"
      then show ?thesis
        using distinct_map_eq[OF assignIDs_distinct, of x ?id ?inc "map vID (variants db)" r] r e
        by blast
    qed
  qed
  then have d21: "db2 = db1" unfolding d2 pe tx by simp
  have "[row \<leftarrow> products db1. pExternalID row = ?X] = [?row]"
    unfolding p1 using new by (simp add: filter_empty_conv)
  then have one: "length [row \<leftarrow> products db2. pExternalID row = ?X] = 1"
    unfolding d21 by simp
  from p1 v1 ph1 sh1 d21 one show ?thesis by blast
qed

text \<open>
  The theorem at the empty store and a snapshot with one variant, nothing failing: both
  calls commit, and the second leaves the store of the first.
\<close>

theorem new_item_twice_witness:
  "fst (saveProduct noFailure someInstant emptyStore cheaperSnapshot) = None
   \<and> fst (saveProduct noFailure someInstant afterFirstSave cheaperSnapshot) = None
   \<and> snd (saveProduct noFailure someInstant afterFirstSave cheaperSnapshot) = afterFirstSave
   \<and> variants afterFirstSave =
       [\<lparr>vID = 1, vProductID = 1, vExternalID = ''V'', vPrice = 80, vOriginalPrice = 100,
         vStockCount = 5\<rparr>]
   \<and> priceHistories afterFirstSave = []
   \<and> stockHistories afterFirstSave = []
   \<and> length [row \<leftarrow> products afterFirstSave. pExternalID row = ''X''] = 1"
proof -
  let ?r1 = "saveProduct noFailure someInstant emptyStore cheaperSnapshot"
  let ?r2 = "saveProduct noFailure someInstant afterFirstSave cheaperSnapshot"
  have n: "\<And>x. \<not> noFailure x" by (simp add: noFailure_def)
  have f1: "fst ?r1 = None" by (rule saveProduct_succeeds[OF n])
  have f2: "fst ?r2 = None" by (rule saveProduct_succeeds[OF n])
  have h1: "?r1 = (None, afterFirstSave)"
    unfolding afterFirstSave_def using f1 by (metis prod.collapse)
  have h2: "?r2 = (None, snd ?r2)" using f2 by (metis prod.collapse)
  have fk: "\<forall>v \<in> set (variants emptyStore). vProductID v \<in> pID ` set (products emptyStore)"
    by (simp add: emptyStore_def)
  have new: "\<forall>row \<in> set (products emptyStore). pExternalID row \<noteq> pExternalID cheaperSnapshot"
    by (simp add: emptyStore_def)
  have noid: "pID cheaperSnapshot = 0" by (simp add: cheaperSnapshot_def)
  have novid: "\<forall>v \<in> set (pVariants cheaperSnapshot). vID v = 0"
    by (simp add: cheaperSnapshot_def)
  have dist: "distinct (map vExternalID (pVariants cheaperSnapshot))"
    by (simp add: cheaperSnapshot_def)
  note t = new_item_twice[OF fk new noid novid dist h1 n h2]
  from t have e: "snd ?r2 = afterFirstSave" by blast
  from t have "variants afterFirstSave = variants emptyStore @
           assignIDs (nextID (map pID (products emptyStore))) (pVariants cheaperSnapshot)
             (map vID (variants emptyStore))" by blast
  then have v: "variants afterFirstSave =
       [\<lparr>vID = 1, vProductID = 1, vExternalID = ''V'', vPrice = 80, vOriginalPrice = 100,
         vStockCount = 5\<rparr>]"
    by (simp add: emptyStore_def cheaperSnapshot_def nextID_def)
  from t have p: "priceHistories afterFirstSave = []" by (simp add: emptyStore_def)
  from t have s: "stockHistories afterFirstSave = []" by (simp add: emptyStore_def)
  from t have "length [row \<leftarrow> products (snd ?r2). pExternalID row = pExternalID cheaperSnapshot] = 1"
    by blast
  then have o: "length [row \<leftarrow> products afterFirstSave. pExternalID row = ''X''] = 1"
    unfolding e by (simp add: cheaperSnapshot_def)
  from f1 f2 e v p s o show ?thesis by blast
qed

section \<open>Properties of the alert matcher\<close>

lemma length_updateLastNotification [simp]:
  "length (updateLastNotification u now alerts) = length alerts"
  by (simp add: updateLastNotification_def)


lemma checkHistory_length [simp]:
  "length (fst (checkHistory fails now db product j alert kh st)) = length (fst st)"
  by (simp add: checkHistory_def Let_def split: sum.splits)

lemma checkHistory_suppressed:
  "timeSince now (paLastNotification alert) \<le> 24 * Hour \<Longrightarrow>
   checkHistory fails now db product j alert kh st = st"
  by (simp add: checkHistory_def Let_def)

lemma checkHistory_above_threshold:
  "phChangePercent (snd kh) > - paDiscountPercent alert \<Longrightarrow>
   checkHistory fails now db product j alert kh st = st"
  by (simp add: checkHistory_def Let_def)




text \<open>
  Claim C3 at an input the matcher can receive: one alert of 15 percent that has never
  notified, and two price histories of the product that both qualify (falls by 20 and by
  25 percent). The check of line 131 reads the loop variable \<^verbatim>\<open>alert\<close>, a copy
  that the stamping of the stored alert does not reach, so one run publishes two
  notify-events for the same alert at the same instant, where the claim allows one in 24
  hours.
\<close>

theorem repeated_notification_in_one_run:
  "processProductUpdate noFailure someInstant twoDropsStore oneAlert ''X'' =
     (None,
      [\<lparr>nUserID = 7, nProductID = 1, nVariantID = 1, nPreviousPrice = 80, nNewPrice = 60,
        nDiscountPercent = 25, nProductName = ''N'', nProductURL = ''U''\<rparr>,
       \<lparr>nUserID = 7, nProductID = 1, nVariantID = 1, nPreviousPrice = 100, nNewPrice = 80,
        nDiscountPercent = 20, nProductName = ''N'', nProductURL = ''U''\<rparr>],
      [1 \<mapsto> [\<lparr>paUserID = 7, paProductID = 1, paVariantID = 0, paDiscountPercent = 15,
               paLastNotification = someInstant\<rparr>]])"
proof -
  have s0: "timeSince someInstant 0 = maxDuration"
    by (simp add: timeSince_def someInstant_def maxDuration_def minDuration_def)
  have d: "maxDuration > 24 * Hour" by (simp add: maxDuration_def Hour_def)
  have z: "zip [0..<2] [a, b] = [(0, a), (1, b)]" for a b :: priceHistory
    by (simp add: upt_rec)
  show ?thesis
    by (simp add: processProductUpdate_def FirstProduct_def FirstVariant_def noFailure_def
        twoDropsStore_def oneAlert_def checkAlert_def checkHistory_def s0 d z
        updateLastNotification_def Let_def numeral_2_eq_2)
qed

section \<open>Properties of the notification fan-out\<close>



















lemma receive_buffered:
  "buf (chans s c) = msg # rest \<Longrightarrow> fst (receiveNotification c s) = Delivered msg"
  by (simp add: receiveNotification_def)


















section \<open>Lock discipline\<close>

lemma guardedFrom_replicate_Read:
  "guardedFrom h (replicate n ReadTable @ es) = ((n = 0 \<or> h \<noteq> NotHeld) \<and> guardedFrom h es)"
  by (induction n) auto

lemma guardedFrom_replicate_Write:
  "guardedFrom h (replicate n WriteTable @ es) = ((n = 0 \<or> h = HeldForWrite) \<and> guardedFrom h es)"
  by (induction n) auto

lemma guarded_crawlProductsByCategory:
  "guardedFrom h (crawlProductsByCategory_events known)"
  unfolding crawlProductsByCategory_events_def
  by (induction known arbitrary: h) simp_all

text \<open>
  Claim C9 on the code. Every function of the crawler that touches the priority table
  does so with \<^verbatim>\<open>priorityMux\<close> held, for reading in the two scans and for writing in
  the mutations, whatever the number of entries. The functions of the analyzer read and
  write the table of alerts with no mutex held: the handler \<^verbatim>\<open>createPriceAlert\<close>, the
  matcher \<^verbatim>\<open>processProductUpdate\<close> that runs in the consumer's goroutine, the handlers
  \<^verbatim>\<open>deletePriceAlert\<close> and \<^verbatim>\<open>getUserPriceAlerts\<close>, and \<^verbatim>\<open>loadPriceAlerts\<close>.
\<close>

theorem lock_discipline:
  "guarded (loadPriorityList_events n)
   \<and> guarded (crawlProductsByCategory_events known)
   \<and> guarded (crawlRegularPriorityProducts_events n)
   \<and> guarded (crawlHighPriorityProducts_events n)
   \<and> guarded (updateProductPriority_events accepted)
   \<and> guarded listenForPriorityUpdates_events
   \<and> \<not> guarded createPriceAlert_events
   \<and> \<not> guarded (processProductUpdate_events publishes)
   \<and> \<not> guarded (deletePriceAlert_events found)
   \<and> \<not> guarded (loadPriceAlerts_events (Suc n))
   \<and> \<not> guarded (getUserPriceAlerts_events (Suc n))"
proof -
  have a: "guarded (loadPriorityList_events n)"
    unfolding guarded_def loadPriorityList_events_def
    by (simp add: guardedFrom_replicate_Write)
  have b: "guarded (crawlProductsByCategory_events known)"
    unfolding guarded_def by (rule guarded_crawlProductsByCategory)
  have c: "guarded (crawlRegularPriorityProducts_events n)"
    unfolding guarded_def crawlRegularPriorityProducts_events_def
    by (simp add: guardedFrom_replicate_Read)
  have d: "guarded (crawlHighPriorityProducts_events n)"
    unfolding guarded_def crawlHighPriorityProducts_events_def
    by (simp add: guardedFrom_replicate_Read)
  have e: "guarded (updateProductPriority_events accepted)"
    unfolding guarded_def updateProductPriority_events_def by simp
  have f: "guarded listenForPriorityUpdates_events"
    unfolding guarded_def listenForPriorityUpdates_events_def by simp
  have g: "\<not> guarded createPriceAlert_events"
    unfolding guarded_def createPriceAlert_events_def by simp
  have h: "\<not> guarded (processProductUpdate_events publishes)"
    unfolding guarded_def processProductUpdate_events_def by simp
  have i: "\<not> guarded (deletePriceAlert_events found)"
    unfolding guarded_def deletePriceAlert_events_def by simp
  have j: "\<not> guarded (loadPriceAlerts_events (Suc n))"
    unfolding guarded_def loadPriceAlerts_events_def by simp
  have k: "\<not> guarded (getUserPriceAlerts_events (Suc n))"
    unfolding guarded_def getUserPriceAlerts_events_def by simp
  from a b c d e f g h i j k show ?thesis by blast
qed


end
